theory Spec2Isabelle
  imports Main "HOL-Library.Multiset"
begin

section \<open>Data model\<close>

text \<open>
  A JavaScript \<^verbatim>\<open>Error\<close>: the handlers of the agents read only its
  \<^verbatim>\<open>message\<close>. A promise that rejects, or a statement that throws, is the
  left injection of a sum; a value is the right one.
\<close>

datatype error = Error (message: string)

text \<open>
  JSON as the language model returns it. Numbers are the integers: the ranking is stored
  in an \<^verbatim>\<open>integer\<close> column, and what the database does with a fraction is
  outside the sources.
\<close>

datatype json =
    JNull
  | JBool bool
  | JNum int
  | JStr string
  | JArr "json list"
  | JObj "(string \<times> json) list"

text \<open>
  The rows of \<^verbatim>\<open>src/db/schema/github_research.ts\<close>, column by column. A
  nullable column is an option.
\<close>

record github_request =
  gr_id :: string
  gr_query :: string
  gr_status :: string
  gr_config :: json
  gr_sessionId :: string

text \<open>A candidate as the search tool returns it; the orchestrator reads its \<^verbatim>\<open>html_url\<close>.\<close>

record repo =
  html_url :: string
  snapshot :: json

record hitl_review =
  hr_id :: string
  hr_requestId :: string
  hr_repoSnapshotJson :: repo
  hr_userVerdict :: "bool option"
  hr_rationale :: "string option"
  hr_status :: string

record repo_analysis =
  ra_id :: string
  ra_requestId :: string
  ra_repoUrl :: string
  ra_agentId :: "string option"
  ra_status :: string
  ra_aiRanking :: "int option"
  ra_aiSummary :: "string option"
  ra_aiProsCons :: "(string list \<times> string list) option"
  ra_stars :: "int option"
  ra_techStack :: "string list option"

record search_config =
  sc_name :: string
  sc_reposToAnalyze :: int
  sc_isDefault :: bool

text \<open>
  The persistent store: the tables the agents touch, as lists in table order, and what the
  agents' base class keeps beside them: the status records that \<^verbatim>\<open>status\<close>
  persists (agent, request id, status, message) and the request log that
  \<^verbatim>\<open>logRequest\<close> appends to.
\<close>

record store =
  githubRequests :: "github_request list"
  hitlReviews :: "hitl_review list"
  repoAnalysis :: "repo_analysis list"
  searchConfigs :: "search_config list"
  statusRecords :: "(string \<times> string \<times> string \<times> string option) list"
  requestLog :: "(string \<times> string \<times> string) list"

section \<open>Schemas (zod)\<close>

definition z_number :: "json \<Rightarrow> int option" where
  "z_number j = (case j of JNum n \<Rightarrow> Some n | _ \<Rightarrow> None)"

definition z_string :: "json \<Rightarrow> string option" where
  "z_string j = (case j of JStr s \<Rightarrow> Some s | _ \<Rightarrow> None)"

definition z_array :: "(json \<Rightarrow> 'a option) \<Rightarrow> json \<Rightarrow> 'a list option" where
  "z_array element j = (case j of JArr xs \<Rightarrow> those (map element xs) | _ \<Rightarrow> None)"

text \<open>A key of \<^verbatim>\<open>z.object\<close>: absent on anything but an object; of a repeated
  key the last one counts, as \<^verbatim>\<open>JSON.parse\<close> reads it.\<close>

definition field :: "string \<Rightarrow> json \<Rightarrow> json option" where
  "field k j = (case j of JObj kvs \<Rightarrow> map_of (rev kvs) k | _ \<Rightarrow> None)"

record analysis =
  ai_ranking :: int
  ai_summary :: string
  ai_pros_cons :: "string list \<times> string list"
  tech_stack :: "string list"

text \<open>
  The schema \<^verbatim>\<open>GithubAnalystAgent.run\<close> passes to \<^verbatim>\<open>generateStructured\<close>:
  \<^verbatim>\<open>z.object({ ai_ranking: z.number(), ai_summary: z.string(),
    ai_pros_cons: z.object({ pros: z.array(z.string()), cons: z.array(z.string()) }),
    tech_stack: z.array(z.string()) })\<close>
\<close>

definition analysis_schema :: "json \<Rightarrow> analysis option" where
  "analysis_schema j =
     (case Option.bind (field ''ai_ranking'' j) z_number of None \<Rightarrow> None | Some r \<Rightarrow>
     (case Option.bind (field ''ai_summary'' j) z_string of None \<Rightarrow> None | Some sm \<Rightarrow>
     (case field ''ai_pros_cons'' j of None \<Rightarrow> None | Some pc \<Rightarrow>
     (case Option.bind (field ''pros'' pc) (z_array z_string) of None \<Rightarrow> None | Some ps \<Rightarrow>
     (case Option.bind (field ''cons'' pc) (z_array z_string) of None \<Rightarrow> None | Some cs \<Rightarrow>
     (case Option.bind (field ''tech_stack'' j) (z_array z_string) of None \<Rightarrow> None | Some ts \<Rightarrow>
      Some \<lparr>ai_ranking = r, ai_summary = sm, ai_pros_cons = (ps, cs), tech_stack = ts\<rparr>))))))"

text \<open>
  The schema of \<^verbatim>\<open>JudgeAgent.review\<close>; of each approved result the agent reads the
  \<^verbatim>\<open>id\<close> only.
\<close>

definition approved_schema :: "json \<Rightarrow> string option" where
  "approved_schema j =
     (case Option.bind (field ''id'' j) z_string of None \<Rightarrow> None | Some i \<Rightarrow>
     (case Option.bind (field ''reasoning'' j) z_string of None \<Rightarrow> None | Some _ \<Rightarrow> Some i))"

definition rejected_schema :: "json \<Rightarrow> string option" where
  "rejected_schema j =
     (case Option.bind (field ''id'' j) z_string of None \<Rightarrow> None | Some i \<Rightarrow>
     (case Option.bind (field ''reasoning'' j) z_string of None \<Rightarrow> None | Some _ \<Rightarrow>
     (case Option.bind (field ''enrichment_request'' j) z_string of None \<Rightarrow> None | Some _ \<Rightarrow>
      Some i)))"

definition review_schema :: "json \<Rightarrow> (string list \<times> string list) option" where
  "review_schema j =
     (case Option.bind (field ''approved_results'' j) (z_array approved_schema) of
        None \<Rightarrow> None
      | Some approved \<Rightarrow>
     (case Option.bind (field ''rejected_results'' j) (z_array rejected_schema) of
        None \<Rightarrow> None
      | Some rejected \<Rightarrow> Some (approved, rejected)))"

section \<open>BaseAgent\<close>

text \<open>
  The three agents extend \<^verbatim>\<open>BaseAgent\<close> of \<^verbatim>\<open>./core/base\<close>, a file
  that is not among the sources. They call its \<^verbatim>\<open>status\<close>,
  \<^verbatim>\<open>logRequest\<close> and \<^verbatim>\<open>generateStructured\<close>. An analyst is the
  durable object named \<^verbatim>\<open>${requestId}-${repo.html_url}\<close>: it carries its pair.
\<close>

datatype agent = OrchestratorAgent | GithubAnalystAgent string string | JudgeAgent

fun agentName :: "agent \<Rightarrow> string" where
  "agentName OrchestratorAgent = ''OrchestratorAgent''"
| "agentName (GithubAnalystAgent _ _) = ''GithubAnalystAgent''"
| "agentName JudgeAgent = ''JudgeAgent''"

definition own_result :: "string \<Rightarrow> string \<Rightarrow> repo_analysis \<Rightarrow> bool" where
  "own_result requestId repoUrl r = (ra_requestId r = requestId \<and> ra_repoUrl r = repoUrl)"

text \<open>
  Modelled from the spec: \<^verbatim>\<open>BaseAgent.status(requestId, status, message?)\<close>, which
  is missing from the sources. The lifecycle status of a SearchRequest is "mutated only by
  OrchestratorEngine": for the orchestrator the call sets the status of the request. An
  analyst "persists status error with the failure message": its call passes the request id,
  the status and the message, not the candidate, and the analysis table has no column for a
  message, so the record is kept under the agent's name and the request id, beside the
  tables. The analyst's other states (\<^verbatim>\<open>analyzing\<close>, \<^verbatim>\<open>complete\<close>) add
  no write to the description of \<^verbatim>\<open>run\<close>, whose first store access is the lookup
  and whose result row is its own insert. The judge "does not mutate PersistentStore itself".
  The call does not fail.
\<close>

fun status :: "agent \<Rightarrow> string \<Rightarrow> string \<Rightarrow> string option \<Rightarrow> store \<Rightarrow> store" where
  "status OrchestratorAgent requestId st msg db =
     db\<lparr>githubRequests :=
          map (\<lambda>r. if gr_id r = requestId then r\<lparr>gr_status := st\<rparr> else r) (githubRequests db)\<rparr>"
| "status (GithubAnalystAgent ownRequest ownUrl) requestId st msg db =
     (if st = ''error''
      then db\<lparr>statusRecords := statusRecords db @ [(''GithubAnalystAgent'', requestId, st, msg)]\<rparr>
      else db)"
| "status JudgeAgent requestId st msg db = db"

text \<open>
  Modelled from the spec: \<^verbatim>\<open>BaseAgent.logRequest(requestId, level, message, data?)\<close>,
  missing from the sources: failures are "logged"; the entry joins the request's log, which
  no agent reads back.
\<close>

definition logRequest :: "string \<Rightarrow> string \<Rightarrow> string \<Rightarrow> store \<Rightarrow> store" where
  "logRequest requestId level msg db = db\<lparr>requestLog := requestLog db @ [(requestId, level, msg)]\<rparr>"

text \<open>
  Modelled from the spec: \<^verbatim>\<open>BaseAgent.generateStructured(prompt, schema)\<close>, missing
  from the sources: "given a prompt and an expected result shape, returns a validated
  structured object", and "must fail distinctly on schema-validation failure vs. transport
  failure". The first argument is what the model answers to the prompt.
\<close>

definition generateStructured :: "(error + json) \<Rightarrow> (json \<Rightarrow> 'a option) \<Rightarrow> error + 'a" where
  "generateStructured answer schema =
     (case answer of
        Inl e \<Rightarrow> Inl e
      | Inr j \<Rightarrow> (case schema j of
                   None \<Rightarrow> Inl (Error ''schema validation failed'')
                 | Some v \<Rightarrow> Inr v))"

section \<open>GithubAnalystAgent (src/apps/api/lib/agents/analyst.ts)\<close>

text \<open>The agent's own state: the latest correction received over its socket.\<close>

record analyst_state =
  correction :: "string option"

text \<open>
  What the world outside answers during one \<^verbatim>\<open>run\<close>: the store (a lookup or an
  insert may reject), the URL parser (\<^verbatim>\<open>new URL\<close> throws on a string that is
  no URL), the two GitHub tools, the language model, and \<^verbatim>\<open>crypto.randomUUID\<close>.
\<close>

record analyst_env =
  findFirst_rejects :: "error option"
  url_pathname :: "string \<Rightarrow> string option"
  github_get_repo :: "string \<Rightarrow> string \<Rightarrow> error + int"
  github_read_file :: "string \<Rightarrow> string \<Rightarrow> string \<Rightarrow> error + string"
  analysis_answer :: "string \<Rightarrow> error + json"
  insert_rejects :: "error option"
  randomUUID :: string

text \<open>\<^verbatim>\<open>String.prototype.split(sep)\<close> for a one-character separator.\<close>

fun split :: "char \<Rightarrow> string \<Rightarrow> string list" where
  "split sep [] = [[]]"
| "split sep (c # cs) =
     (if c = sep then [] # split sep cs
      else (case split sep cs of w # ws \<Rightarrow> (c # w) # ws | [] \<Rightarrow> [[c]]))"

text \<open>
  The prompt of step 3, its fixed text shortened. \<^verbatim>\<open>packageJsonContent || "Not found"\<close>
  and \<^verbatim>\<open>this.state.correction ? ... : ""\<close> test for a value that is neither
  missing nor the empty string.
\<close>

definition analysisPrompt ::
  "string \<Rightarrow> string \<Rightarrow> string \<Rightarrow> string option \<Rightarrow> string option \<Rightarrow> string" where
  "analysisPrompt userQuery repoUrl readmeContent packageJsonContent corr =
     ''Original user query: '' @ userQuery @ '' Repository: '' @ repoUrl @
     '' README: --- '' @ readmeContent @ '' --- package.json: --- '' @
     (case packageJsonContent of
        None \<Rightarrow> ''Not found''
      | Some c \<Rightarrow> if c = [] then ''Not found'' else c) @
     '' --- '' @
     (case corr of
        None \<Rightarrow> []
      | Some c \<Rightarrow> if c = [] then [] else ''Correction from orchestrator: '' @ c) @
     '' Provide your analysis as a JSON object; ai_ranking: a number between 1 and 100''"

text \<open>
  The body of the \<^verbatim>\<open>try\<close> block of \<^verbatim>\<open>run\<close> (lines 55 to 156). The
  result is the exception thrown, if any, and the store as it then is.
\<close>

definition run_try ::
  "analyst_env \<Rightarrow> analyst_state \<Rightarrow> string \<Rightarrow> string \<Rightarrow> string \<Rightarrow> store \<Rightarrow> (error + unit) \<times> store" where
  "run_try env st requestId repoUrl userQuery db =
     (case findFirst_rejects env of
        Some e \<Rightarrow> (Inl e, db)
      | None \<Rightarrow>
     (case find (own_result requestId repoUrl) (repoAnalysis db) of
        Some existingAnalysis \<Rightarrow>
          (Inr (), logRequest requestId ''info''
                     (''Skipping analysis for '' @ repoUrl @ '', already analyzed.'') db)
      | None \<Rightarrow>
     (case url_pathname env repoUrl of
        None \<Rightarrow> (Inl (Error ''Invalid URL''), db)
      | Some pathname \<Rightarrow>
     (let pathParts = filter (\<lambda>w. w \<noteq> []) (split CHR ''/'' pathname) in
      if length pathParts < 2 then (Inl (Error ''Invalid repository URL''), db)
      else
     (let owner = pathParts ! 0; repo = pathParts ! 1 in
      case github_get_repo env owner repo of
        Inl e \<Rightarrow> (Inl e, db)
      | Inr stargazers_count \<Rightarrow>
     (case github_read_file env owner repo ''README.md'' of
        Inl e \<Rightarrow> (Inl e, db)
      | Inr readmeContent \<Rightarrow>
     (let packageJsonContent =
            (case github_read_file env owner repo ''package.json'' of
               Inl _ \<Rightarrow> None
             | Inr c \<Rightarrow> Some c)
      in
      case generateStructured
             (analysis_answer env
                (analysisPrompt userQuery repoUrl readmeContent packageJsonContent (correction st)))
             analysis_schema of
        Inl e \<Rightarrow> (Inl e, db)
      | Inr a \<Rightarrow>
     (case insert_rejects env of
        Some e \<Rightarrow> (Inl e, db)
      | None \<Rightarrow>
     (let db1 = db\<lparr>repoAnalysis := repoAnalysis db @
                  [\<lparr>ra_id = randomUUID env, ra_requestId = requestId, ra_repoUrl = repoUrl,
                    ra_agentId = Some (agentName (GithubAnalystAgent requestId repoUrl)),
                    ra_status = ''complete'', ra_aiRanking = Some (ai_ranking a),
                    ra_aiSummary = Some (ai_summary a), ra_aiProsCons = Some (ai_pros_cons a),
                    ra_stars = Some stargazers_count, ra_techStack = Some (tech_stack a)\<rparr>]\<rparr>;
          db2 = status (GithubAnalystAgent requestId repoUrl) requestId ''complete'' None db1
      in (Inr (), logRequest requestId ''info'' ''Analysis complete.'' db2))))))))))"

text \<open>The two calls before the \<^verbatim>\<open>try\<close> (lines 50 and 51).\<close>

definition run_enter :: "string \<Rightarrow> string \<Rightarrow> store \<Rightarrow> store" where
  "run_enter requestId repoUrl db =
     logRequest requestId ''info'' (''Analyzing repository: '' @ repoUrl)
       (status (GithubAnalystAgent requestId repoUrl) requestId ''analyzing'' None db)"

text \<open>
  \<^verbatim>\<open>async run(requestId, repoUrl, userQuery)\<close>: the \<^verbatim>\<open>catch\<close> block
  reports the exception of the \<^verbatim>\<open>try\<close> block through \<^verbatim>\<open>status\<close> and
  \<^verbatim>\<open>logRequest\<close>. The first component is how the promise settles.
\<close>

definition run ::
  "analyst_env \<Rightarrow> analyst_state \<Rightarrow> string \<Rightarrow> string \<Rightarrow> string \<Rightarrow> store \<Rightarrow> (error + unit) \<times> store" where
  "run env st requestId repoUrl userQuery db =
     (case run_try env st requestId repoUrl userQuery (run_enter requestId repoUrl db) of
        (Inr u, db1) \<Rightarrow> (Inr u, db1)
      | (Inl e, db1) \<Rightarrow>
          (Inr (),
           logRequest requestId ''error'' ''Analysis failed''
             (status (GithubAnalystAgent requestId repoUrl) requestId ''error''
                (Some (message e)) db1)))"

section \<open>JudgeAgent (src/unnamed/part_001)\<close>

text \<open>
  \<^verbatim>\<open>async review(requestId, userQuery, results)\<close>. \<open>answer\<close> is what the model
  returns for the review prompt, which embeds the query and the results.
\<close>

definition review ::
  "(string \<Rightarrow> repo_analysis list \<Rightarrow> error + json) \<Rightarrow> string \<Rightarrow> string \<Rightarrow> repo_analysis list \<Rightarrow>
     store \<Rightarrow> (error + repo_analysis list) \<times> store" where
  "review answer requestId userQuery results db =
     (let db1 = status JudgeAgent requestId ''judging'' None db;
          db2 = logRequest requestId ''info'' ''Judging results.'' db1
      in case generateStructured (answer userQuery results) review_schema of
           Inl e \<Rightarrow> (Inl e, db2)
         | Inr (approved_results, rejected_results) \<Rightarrow>
             (let approvedIds = set approved_results;
                  finalResults = filter (\<lambda>r. ra_id r \<in> approvedIds) results;
                  db3 = status JudgeAgent requestId ''judged'' None db2
              in (Inr finalResults, logRequest requestId ''info'' ''Judging complete.'' db3)))"

section \<open>OrchestratorAgent and the agent router (src/unnamed/part_002)\<close>

text \<open>
  What the world outside answers to the orchestrator: the model's answers to the two query
  prompts, the code search (the \<^verbatim>\<open>items\<close> of a result),
  \<^verbatim>\<open>crypto.randomUUID\<close> by call, and the store's insert.
\<close>

record orchestrator_env =
  queries_answer :: "string \<Rightarrow> error + json"
  refined_answer :: "string \<Rightarrow> repo list \<Rightarrow> error + json"
  github_search_code :: "string \<Rightarrow> error + repo list"
  uuid_of_call :: "nat \<Rightarrow> string"
  hitl_insert_rejects :: "error option"

text \<open>\<^verbatim>\<open>Promise.all\<close>: the list of values, or the rejection of a promise.\<close>

fun promise_all :: "(error + 'a) list \<Rightarrow> error + 'a list" where
  "promise_all [] = Inr []"
| "promise_all (p # ps) =
     (case p of
        Inl e \<Rightarrow> Inl e
      | Inr v \<Rightarrow> (case promise_all ps of Inl e \<Rightarrow> Inl e | Inr vs \<Rightarrow> Inr (v # vs)))"

text \<open>\<^verbatim>\<open>Array.prototype.slice(0, n)\<close>: a negative end counts from the end.\<close>

definition slice0 :: "int \<Rightarrow> 'a list \<Rightarrow> 'a list" where
  "slice0 n xs = (if 0 \<le> n then take (nat n) xs else take (length xs - nat (- n)) xs)"

definition new_hitl_review :: "string \<Rightarrow> string \<Rightarrow> repo \<Rightarrow> hitl_review" where
  "new_hitl_review uuid requestId r =
     \<lparr>hr_id = uuid, hr_requestId = requestId, hr_repoSnapshotJson = r,
      hr_userVerdict = None, hr_rationale = None, hr_status = ''pending''\<rparr>"

text \<open>
  \<^verbatim>\<open>async start(requestId, query, config)\<close>: Sampling, then the review items. The
  broadcasts to the connected clients change no state and are left out.
  \<^verbatim>\<open>db.insert(table).values(rows)\<close> of drizzle-orm throws on an empty array
  ("values() must be called with at least one value").
\<close>

definition start ::
  "orchestrator_env \<Rightarrow> string \<Rightarrow> string \<Rightarrow> json \<Rightarrow> store \<Rightarrow> (error + unit) \<times> store" where
  "start env requestId query config db =
     (let db1 = logRequest requestId ''info'' ''Starting new search.'' db;
          db2 = status OrchestratorAgent requestId ''sampling'' None db1
      in case generateStructured (queries_answer env query) (z_array z_string) of
           Inl e \<Rightarrow> (Inl e, db2)
         | Inr searchQueries \<Rightarrow>
      (case promise_all (map (github_search_code env) searchQueries) of
           Inl e \<Rightarrow> (Inl e, db2)
         | Inr searchResults \<Rightarrow>
      (let top5Repos = slice0 5 (concat searchResults);
           db3 = status OrchestratorAgent requestId ''hitl'' None db2;
           hitlReviewsToCreate =
             map (\<lambda>(i, r). new_hitl_review (uuid_of_call env i) requestId r)
                 (enumerate 0 top5Repos)
       in if hitlReviewsToCreate = []
          then (Inl (Error ''values() must be called with at least one value''), db3)
          else (case hitl_insert_rejects env of
                  Some e \<Rightarrow> (Inl e, db3)
                | None \<Rightarrow> (Inr (), db3\<lparr>hitlReviews := hitlReviews db3 @ hitlReviewsToCreate\<rparr>)))))"

subsection \<open>The review route (POST /hitl/{reviewId}/review)\<close>

text \<open>
  The handler first updates the row with the id:
  \<^verbatim>\<open>db.update(hitlReviews).set({...}).where(eq(hitlReviews.id, reviewId))\<close>.
\<close>

definition mark_reviewed :: "string \<Rightarrow> bool \<Rightarrow> string option \<Rightarrow> hitl_review \<Rightarrow> hitl_review" where
  "mark_reviewed reviewId userVerdict rationale r =
     (if hr_id r = reviewId
      then r\<lparr>hr_userVerdict := Some userVerdict,
             hr_rationale := Some (case rationale of None \<Rightarrow> [] | Some t \<Rightarrow> t),
             hr_status := ''reviewed''\<rparr>
      else r)"

definition reviewHitl_update :: "string \<Rightarrow> bool \<Rightarrow> string option \<Rightarrow> store \<Rightarrow> store" where
  "reviewHitl_update reviewId userVerdict rationale db =
     db\<lparr>hitlReviews := map (mark_reviewed reviewId userVerdict rationale) (hitlReviews db)\<rparr>"

text \<open>
  Then, after the \<^verbatim>\<open>await\<close>, it reads the row back, and when every review of its
  request is reviewed it calls \<^verbatim>\<open>orchestrator.continue(review.requestId)\<close>: the
  result is the request \<^verbatim>\<open>continue\<close> is called for, if any.
\<close>

definition reviewHitl_check :: "string \<Rightarrow> store \<Rightarrow> string option" where
  "reviewHitl_check reviewId db =
     (case find (\<lambda>r. hr_id r = reviewId) (hitlReviews db) of
        None \<Rightarrow> None
      | Some rv \<Rightarrow>
          (let allReviews = filter (\<lambda>r. hr_requestId r = hr_requestId rv) (hitlReviews db);
               reviewedCount = length (filter (\<lambda>r. hr_status r = ''reviewed'') allReviews)
           in if length allReviews = reviewedCount then Some (hr_requestId rv) else None))"

text \<open>One request to the route, handled without another in between.\<close>

definition reviewHitl ::
  "string \<Rightarrow> bool \<Rightarrow> string option \<Rightarrow> store \<Rightarrow> store \<times> string option" where
  "reviewHitl reviewId userVerdict rationale db =
     (let db1 = reviewHitl_update reviewId userVerdict rationale db
      in (db1, reviewHitl_check reviewId db1))"

text \<open>Requests handled one after the other: the calls of \<^verbatim>\<open>continue\<close> they make,
  in order.\<close>

fun reviewHitl_all :: "(string \<times> bool \<times> string option) list \<Rightarrow> store \<Rightarrow> store \<times> string list" where
  "reviewHitl_all [] db = (db, [])"
| "reviewHitl_all ((reviewId, userVerdict, rationale) # posts) db =
     (case reviewHitl reviewId userVerdict rationale db of
        (db1, called) \<Rightarrow>
          (case reviewHitl_all posts db1 of
             (db2, calls) \<Rightarrow> (db2, (case called of None \<Rightarrow> [] | Some r \<Rightarrow> [r]) @ calls)))"

subsection \<open>continue: Expansion and Delegation\<close>

text \<open>
  \<^verbatim>\<open>async continue(requestId)\<close> up to the start of Supervision (lines 71 to 114):
  the request with its reviews, the default configuration, the refined queries and the
  candidates to analyze. Of the request the call checks only that it exists.
\<close>

definition continue_delegation ::
  "orchestrator_env \<Rightarrow> string \<Rightarrow> store \<Rightarrow> (error + github_request \<times> repo list) \<times> store" where
  "continue_delegation env requestId db =
     (case find (\<lambda>r. gr_id r = requestId) (githubRequests db) of
        None \<Rightarrow> (Inl (Error ''Request not found''), db)
      | Some request \<Rightarrow>
     (let request_hitlReviews = filter (\<lambda>r. hr_requestId r = requestId) (hitlReviews db);
          reposToAnalyzeCount =
            (case find sc_isDefault (searchConfigs db) of
               None \<Rightarrow> 20
             | Some config \<Rightarrow> sc_reposToAnalyze config);
          db1 = status OrchestratorAgent requestId ''expansion'' None db;
          positiveReviews = filter (\<lambda>r. hr_userVerdict r = Some True) request_hitlReviews
      in case generateStructured
                (refined_answer env (gr_query request) (map hr_repoSnapshotJson positiveReviews))
                (z_array z_string) of
           Inl e \<Rightarrow> (Inl e, db1)
         | Inr refinedSearchQueries \<Rightarrow>
      (let db2 = status OrchestratorAgent requestId ''delegation'' None db1
       in case promise_all (map (github_search_code env) refinedSearchQueries) of
            Inl e \<Rightarrow> (Inl e, db2)
          | Inr searchResults \<Rightarrow>
              (Inr (request, slice0 reposToAnalyzeCount (concat searchResults)),
               status OrchestratorAgent requestId ''supervision'' None db2))))"

subsection \<open>continue: Supervision\<close>

text \<open>
  The scheduler of lines 116 to 182. A promise is \<^verbatim>\<open>analyst.run(...).then(...)\<close>
  for one candidate; promises are distinct objects, here numbered. \<open>invoked\<close> lists the
  candidates \<^verbatim>\<open>analyst.run\<close> was called for, in call order, and \<open>settled\<close>
  those whose call has returned, with how it ended.
\<close>

datatype outcome = Succeeded | CaughtFailure string

record promise =
  pid :: nat
  candidate :: repo

record supervision =
  queue :: "repo list"
  running :: "promise list"
  next_pid :: nat
  invoked :: "repo list"
  settled :: "(repo \<times> outcome) list"

definition concurrency :: nat where
  "concurrency = 5"

text \<open>
  \<^verbatim>\<open>while (running.length < concurrency && queue.length > 0)\<close>: shift a candidate,
  call its analyst, push the promise. A candidate is an object, so \<^verbatim>\<open>if (repo)\<close>
  holds for what \<^verbatim>\<open>shift\<close> returns from a queue that is not empty.
\<close>

function processQueue :: "supervision \<Rightarrow> supervision" where
  "processQueue s =
     (if length (running s) < concurrency \<and> queue s \<noteq> []
      then processQueue
             (s\<lparr>queue := tl (queue s),
                running := running s @ [\<lparr>pid = next_pid s, candidate = hd (queue s)\<rparr>],
                next_pid := Suc (next_pid s),
                invoked := invoked s @ [hd (queue s)]\<rparr>)
      else s)"
  by pat_completeness auto
termination
  by (relation "measure (\<lambda>s. length (queue s))") auto

declare processQueue.simps [simp del]

text \<open>\<^verbatim>\<open>const queue = [...reposToAnalyze]; const running = []; processQueue();\<close>\<close>

definition supervision_start :: "repo list \<Rightarrow> supervision" where
  "supervision_start reposToAnalyze =
     processQueue \<lparr>queue = reposToAnalyze, running = [], next_pid = 0, invoked = [], settled = []\<rparr>"

text \<open>\<^verbatim>\<open>Array.prototype.indexOf\<close> and \<^verbatim>\<open>splice(index, 1)\<close>.\<close>

fun indexOf :: "'a list \<Rightarrow> 'a \<Rightarrow> int" where
  "indexOf [] x = - 1"
| "indexOf (y # ys) x = (if y = x then 0 else (let i = indexOf ys x in if i < 0 then - 1 else i + 1))"

definition splice1 :: "nat \<Rightarrow> 'a list \<Rightarrow> 'a list" where
  "splice1 i xs = take i xs @ drop (Suc i) xs"

text \<open>
  The callback of \<^verbatim>\<open>.then\<close>, run when the analyst's call has returned: the promise
  leaves \<^verbatim>\<open>running\<close> and the queue is processed again.
\<close>

definition on_fulfilled :: "promise \<Rightarrow> outcome \<Rightarrow> supervision \<Rightarrow> supervision" where
  "on_fulfilled p how s =
     (let index = indexOf (running s) p;
          running1 = (if index > - 1 then splice1 (nat index) (running s) else running s)
      in processQueue (s\<lparr>running := running1, settled := settled s @ [(candidate p, how)]\<rparr>))"

text \<open>
  One event of the loop \<^verbatim>\<open>while (running.length > 0) await Promise.race(running)\<close>:
  the call of a running promise returns. A promise that is not running has no call pending.
\<close>

definition settle :: "nat \<Rightarrow> outcome \<Rightarrow> supervision \<Rightarrow> supervision option" where
  "settle n how s =
     (case find (\<lambda>p. pid p = n) (running s) of
        None \<Rightarrow> None
      | Some p \<Rightarrow> Some (on_fulfilled p how s))"

text \<open>A run of Supervision: the calls return in some order, each ending in some way.\<close>

fun supervise :: "(nat \<times> outcome) list \<Rightarrow> supervision \<Rightarrow> supervision option" where
  "supervise [] s = Some s"
| "supervise ((n, how) # events) s =
     (case settle n how s of None \<Rightarrow> None | Some s1 \<Rightarrow> supervise events s1)"

text \<open>The loop ends, and Synthesis begins, when \<^verbatim>\<open>running.length > 0\<close> fails.\<close>

definition drained :: "supervision \<Rightarrow> bool" where
  "drained s = (running s = [])"

text \<open>
  What holds of the scheduler between two events, for the candidates it was given: the bound,
  the submission order, and that every candidate whose analyst was called is running or has
  returned.
\<close>

definition supervision_inv :: "repo list \<Rightarrow> supervision \<Rightarrow> bool" where
  "supervision_inv reposToAnalyze s =
     (length (running s) \<le> concurrency
      \<and> invoked s @ queue s = reposToAnalyze
      \<and> mset (map candidate (running s)) + mset (map fst (settled s)) = mset (invoked s)
      \<and> (queue s = [] \<or> length (running s) = concurrency))"

subsection \<open>continue: the correction monitor\<close>

definition correction_text :: string where
  "correction_text = ''The AI ranking seems low. Please be more generous with your rankings.''"

text \<open>
  One tick of \<^verbatim>\<open>setInterval\<close> (lines 163 to 177): the messages sent, by socket.
\<close>

definition monitor_tick :: "store \<Rightarrow> string \<Rightarrow> 'ws list \<Rightarrow> ('ws \<times> string \<times> string) list" where
  "monitor_tick db requestId analystSockets =
     (let analysisResults = filter (\<lambda>r. ra_requestId r = requestId) (repoAnalysis db)
      in if list_ex (\<lambda>r. (case ra_aiRanking r of None \<Rightarrow> 0 | Some n \<Rightarrow> n) < 10) analysisResults
         then map (\<lambda>ws. (ws, ''correction'', correction_text)) analystSockets
         else [])"

section \<open>Synthesis (OrchestratorAgent.continue, phase 6)\<close>

text \<open>
  \<^verbatim>\<open>db.query.repoAnalysis.findMany({ where: eq(repoAnalysis.requestId, requestId) })\<close>
\<close>

definition findMany_repoAnalysis :: "store \<Rightarrow> string \<Rightarrow> repo_analysis list" where
  "findMany_repoAnalysis db requestId =
     filter (\<lambda>r. ra_requestId r = requestId) (repoAnalysis db)"

text \<open>\<^verbatim>\<open>r.aiRanking ?? 0\<close>\<close>

definition ranking :: "repo_analysis \<Rightarrow> int" where
  "ranking r = (case ra_aiRanking r of None \<Rightarrow> 0 | Some n \<Rightarrow> n)"

text \<open>
  \<^verbatim>\<open>Array.prototype.sort(compare)\<close>: a stable sort (ECMAScript 2019), here by
  insertion. An element goes before the first one it does not compare greater than, and the
  elements are inserted from the right, so equal elements keep their order.
\<close>

fun insert_by :: "('a \<Rightarrow> 'a \<Rightarrow> int) \<Rightarrow> 'a \<Rightarrow> 'a list \<Rightarrow> 'a list" where
  "insert_by compare x [] = [x]"
| "insert_by compare x (y # ys) =
     (if compare x y \<le> 0 then x # y # ys else y # insert_by compare x ys)"

definition array_sort :: "('a \<Rightarrow> 'a \<Rightarrow> int) \<Rightarrow> 'a list \<Rightarrow> 'a list" where
  "array_sort compare xs = foldr (insert_by compare) xs []"

text \<open>
  \<^verbatim>\<open>analysisResults.sort((a, b) => (b.aiRanking ?? 0) - (a.aiRanking ?? 0)).slice(0, 12)\<close>
\<close>

definition top12Results :: "store \<Rightarrow> string \<Rightarrow> repo_analysis list" where
  "top12Results db requestId =
     take 12 (array_sort (\<lambda>a b. ranking b - ranking a) (findMany_repoAnalysis db requestId))"

subsection \<open>continue: Handoff\<close>

text \<open>
  Lines 188 to 218: Synthesis, the judge's review, the rejected complement, completion.
\<close>

definition continue_handoff ::
  "(string \<Rightarrow> repo_analysis list \<Rightarrow> error + json) \<Rightarrow> github_request \<Rightarrow> store \<Rightarrow>
     (error + repo_analysis list) \<times> store" where
  "continue_handoff judge_answer request db =
     (let requestId = gr_id request;
          db1 = status OrchestratorAgent requestId ''synthesis'' None db;
          top12 = top12Results db1 requestId;
          db2 = status OrchestratorAgent requestId ''handoff'' None db1
      in case review judge_answer requestId (gr_query request) top12 db2 of
           (Inl e, db3) \<Rightarrow> (Inl e, db3)
         | (Inr finalResults, db3) \<Rightarrow>
             (let rejectedResults =
                    filter (\<lambda>r. \<not> list_ex (\<lambda>fr. ra_id fr = ra_id r) finalResults) top12;
                  db4 = (if length rejectedResults > 0
                         then logRequest requestId ''info'' ''Enrichment requested.'' db3
                         else db3);
                  db5 = status OrchestratorAgent requestId ''completed'' None db4
              in (Inr finalResults, logRequest requestId ''info'' ''Search complete.'' db5)))"

section \<open>Sample data\<close>

text \<open>A request with three analysed candidates, one of them without a ranking.\<close>

definition sample_result :: "string \<Rightarrow> string \<Rightarrow> int option \<Rightarrow> repo_analysis" where
  "sample_result i url score =
     \<lparr>ra_id = i, ra_requestId = ''req-1'', ra_repoUrl = url,
      ra_agentId = Some ''GithubAnalystAgent'', ra_status = ''complete'', ra_aiRanking = score,
      ra_aiSummary = Some ''summary'', ra_aiProsCons = Some ([], []), ra_stars = Some 7,
      ra_techStack = Some []\<rparr>"

definition sample_request :: github_request where
  "sample_request =
     \<lparr>gr_id = ''req-1'', gr_query = ''auth libraries'', gr_status = ''pending'',
      gr_config = JObj [], gr_sessionId = ''session-1''\<rparr>"

definition sample_store :: store where
  "sample_store =
     \<lparr>githubRequests = [sample_request], hitlReviews = [],
      repoAnalysis = [sample_result ''a'' ''https://github.com/o/a'' (Some 40),
                      sample_result ''b'' ''https://github.com/o/b'' None,
                      sample_result ''c'' ''https://github.com/o/c'' (Some 90)],
      searchConfigs = [], statusRecords = [], requestLog = []\<rparr>"

text \<open>
  A candidate whose README can be read and whose \<^verbatim>\<open>package.json\<close> is missing; the
  model answers every prompt with a well-formed analysis of the given ranking.
\<close>

definition sample_answer :: "int \<Rightarrow> json" where
  "sample_answer n =
     JObj [(''ai_ranking'', JNum n), (''ai_summary'', JStr ''an auth library''),
           (''ai_pros_cons'', JObj [(''pros'', JArr [JStr ''small'']), (''cons'', JArr [])]),
           (''tech_stack'', JArr [JStr ''typescript''])]"

definition sample_env :: "int \<Rightarrow> analyst_env" where
  "sample_env n =
     \<lparr>findFirst_rejects = None,
      url_pathname = (\<lambda>u. if u = ''https://github.com/o/d'' then Some ''/o/d'' else None),
      github_get_repo = (\<lambda>owner repo. Inr 120),
      github_read_file =
        (\<lambda>owner repo path. if path = ''README.md'' then Inr ''# d'' else Inl (Error ''Not Found'')),
      analysis_answer = (\<lambda>prompt. Inr (sample_answer n)),
      insert_rejects = None,
      randomUUID = ''uuid-1''\<rparr>"


text \<open>
  A search that finds nothing: the model proposes two queries and the code search answers
  each with no items.
\<close>

definition empty_search_env :: orchestrator_env where
  "empty_search_env =
     \<lparr>queries_answer = (\<lambda>userQuery. Inr (JArr [JStr ''auth worker'', JStr ''auth edge''])),
      refined_answer = (\<lambda>userQuery examples. Inr (JArr [JStr ''auth worker jwt''])),
      github_search_code = (\<lambda>q. Inr []),
      uuid_of_call = (\<lambda>i. ''uuid''),
      hitl_insert_rejects = None\<rparr>"

text \<open>A finished request with its single review item, reviewed and approved.\<close>

definition reviewed_store :: store where
  "reviewed_store =
     \<lparr>githubRequests = [sample_request\<lparr>gr_status := ''completed''\<rparr>],
      hitlReviews = [\<lparr>hr_id = ''rev-1'', hr_requestId = ''req-1'',
                      hr_repoSnapshotJson = \<lparr>html_url = ''https://github.com/o/a'', snapshot = JNull\<rparr>,
                      hr_userVerdict = Some True, hr_rationale = Some [], hr_status = ''reviewed''\<rparr>],
      repoAnalysis = [], searchConfigs = [], statusRecords = [], requestLog = []\<rparr>"

text \<open>A request with two pending review items.\<close>

definition pending_store :: store where
  "pending_store =
     \<lparr>githubRequests = [sample_request\<lparr>gr_status := ''hitl''\<rparr>],
      hitlReviews =
        [new_hitl_review ''rev-1'' ''req-1'' \<lparr>html_url = ''https://github.com/o/a'', snapshot = JNull\<rparr>,
         new_hitl_review ''rev-2'' ''req-1'' \<lparr>html_url = ''https://github.com/o/b'', snapshot = JNull\<rparr>],
      repoAnalysis = [], searchConfigs = [], statusRecords = [], requestLog = []\<rparr>"

text \<open>Twenty-three candidates, and a run of Supervision in which the calls return in the
  order they were made, every fourth one after a failure its analyst caught.\<close>

definition sample_repos :: "repo list" where
  "sample_repos =
     map (\<lambda>i. \<lparr>html_url = ''https://github.com/o/r'' @ replicate i CHR ''x'', snapshot = JNull\<rparr>)
         [0 ..< 23]"

definition sample_events :: "(nat \<times> outcome) list" where
  "sample_events =
     map (\<lambda>i. (i, if i mod 4 = 0 then CaughtFailure ''Not Found'' else Succeeded)) [0 ..< 23]"

section \<open>Properties of Synthesis\<close>

lemma mset_insert_by: "mset (insert_by compare x ys) = add_mset x (mset ys)"
  by (induction ys) auto

lemma mset_array_sort: "mset (array_sort compare xs) = mset xs"
  unfolding array_sort_def by (induction xs) (auto simp: mset_insert_by)

lemma set_insert_by: "set (insert_by compare x ys) = insert x (set ys)"
  by (induction ys) auto

lemma sorted_insert_by:
  "sorted_wrt (\<lambda>a b. ranking b \<le> ranking a) ys \<Longrightarrow>
   sorted_wrt (\<lambda>a b. ranking b \<le> ranking a) (insert_by (\<lambda>a b. ranking b - ranking a) x ys)"
  by (induction ys) (auto simp: set_insert_by)

lemma sorted_array_sort:
  "sorted_wrt (\<lambda>a b. ranking b \<le> ranking a) (array_sort (\<lambda>a b. ranking b - ranking a) xs)"
  unfolding array_sort_def by (induction xs) (auto intro: sorted_insert_by)

lemma sorted_wrt_take: "sorted_wrt P xs \<Longrightarrow> sorted_wrt P (take n xs)"
  by (induction xs arbitrary: n) (auto simp: take_Cons' dest: in_set_takeD)


text \<open>
  Claim C6. Synthesis loads all results of the request, sorts them by relevance score in
  non-increasing order (a missing score counting as 0), and keeps at most the first 12:
  every result kept ranks at least as high as every result dropped, and a request with at
  most 12 results keeps all of them.
\<close>

theorem synthesis_top12:
  "set (findMany_repoAnalysis db requestId) = {r \<in> set (repoAnalysis db). ra_requestId r = requestId}
   \<and> sorted_wrt (\<lambda>a b. ranking b \<le> ranking a) (top12Results db requestId)
   \<and> length (top12Results db requestId) \<le> 12
   \<and> mset (top12Results db requestId) \<subseteq># mset (findMany_repoAnalysis db requestId)
   \<and> (\<forall>x y. x \<in> set (top12Results db requestId) \<and>
              y \<in># mset (findMany_repoAnalysis db requestId) - mset (top12Results db requestId)
              \<longrightarrow> ranking y \<le> ranking x)
   \<and> (length (findMany_repoAnalysis db requestId) \<le> 12 \<longrightarrow>
        mset (top12Results db requestId) = mset (findMany_repoAnalysis db requestId))"
proof -
  let ?rows = "findMany_repoAnalysis db requestId"
  let ?ys = "array_sort (\<lambda>a b. ranking b - ranking a) ?rows"
  have top: "top12Results db requestId = take 12 ?ys"
    by (simp add: top12Results_def)
  have srt: "sorted_wrt (\<lambda>a b. ranking b \<le> ranking a) ?ys"
    by (rule sorted_array_sort)
  have ms: "mset ?ys = mset ?rows"
    by (rule mset_array_sort)
  have split: "mset ?rows = mset (take 12 ?ys) + mset (drop 12 ?ys)"
    by (metis append_take_drop_id ms mset_append)
  have c1: "set ?rows = {r \<in> set (repoAnalysis db). ra_requestId r = requestId}"
    by (auto simp: findMany_repoAnalysis_def)
  have c2: "sorted_wrt (\<lambda>a b. ranking b \<le> ranking a) (take 12 ?ys)"
    using srt by (rule sorted_wrt_take)
  have c3: "length (take 12 ?ys) \<le> 12"
    by simp
  have c4: "mset (take 12 ?ys) \<subseteq># mset ?rows"
    unfolding split by simp
  have c5: "ranking y \<le> ranking x"
    if "x \<in> set (take 12 ?ys)" and "y \<in># mset ?rows - mset (take 12 ?ys)" for x y
  proof -
    from that(2) have "y \<in> set (drop 12 ?ys)"
      unfolding split by simp
    moreover have "sorted_wrt (\<lambda>a b. ranking b \<le> ranking a) (take 12 ?ys @ drop 12 ?ys)"
      using srt by simp
    ultimately show ?thesis
      using that(1) unfolding sorted_wrt_append by blast
  qed
  have c6: "mset (take 12 ?ys) = mset ?rows" if "length ?rows \<le> 12"
  proof -
    have "length ?ys = length ?rows"
      using ms by (metis size_mset)
    with that show ?thesis
      using ms by simp
  qed
  show ?thesis
    unfolding top using c1 c2 c3 c4 c5 c6 by blast
qed

text \<open>The sample request has three results; all three are kept, the best first.\<close>

theorem synthesis_top12_witness:
  "map ra_id (top12Results sample_store ''req-1'') = [''c'', ''a'', ''b'']
   \<and> mset (top12Results sample_store ''req-1'') = mset (findMany_repoAnalysis sample_store ''req-1'')"
proof -
  have n: "length (findMany_repoAnalysis sample_store ''req-1'') \<le> 12"
    by (simp add: findMany_repoAnalysis_def sample_store_def sample_result_def)
  have ids: "map ra_id (top12Results sample_store ''req-1'') = [''c'', ''a'', ''b'']"
    by (simp add: top12Results_def array_sort_def findMany_repoAnalysis_def sample_store_def
        sample_result_def ranking_def)
  show ?thesis
    using synthesis_top12 [of sample_store "''req-1''"] n ids by blast
qed

section \<open>Properties of Supervision\<close>

lemma processQueue_unfold:
  "processQueue s =
     (if length (running s) < concurrency \<and> queue s \<noteq> []
      then processQueue
             (s\<lparr>queue := tl (queue s),
                running := running s @ [\<lparr>pid = next_pid s, candidate = hd (queue s)\<rparr>],
                next_pid := Suc (next_pid s),
                invoked := invoked s @ [hd (queue s)]\<rparr>)
      else s)"
  by (rule processQueue.simps)

lemma settled_processQueue [simp]: "settled (processQueue s) = settled s"
proof (induction s rule: processQueue.induct)
  case (1 s)
  show ?case
    by (subst processQueue_unfold) (simp add: "1.IH")
qed

lemma processQueue_inv:
  "length (running s) \<le> concurrency \<Longrightarrow>
   invoked s @ queue s = reposToAnalyze \<Longrightarrow>
   mset (map candidate (running s)) + mset (map fst (settled s)) = mset (invoked s) \<Longrightarrow>
   supervision_inv reposToAnalyze (processQueue s)"
proof (induction s rule: processQueue.induct)
  case (1 s)
  show ?case
  proof (cases "length (running s) < concurrency \<and> queue s \<noteq> []")
    case True
    let ?s1 = "s\<lparr>queue := tl (queue s),
                running := running s @ [\<lparr>pid = next_pid s, candidate = hd (queue s)\<rparr>],
                next_pid := Suc (next_pid s),
                invoked := invoked s @ [hd (queue s)]\<rparr>"
    have "supervision_inv reposToAnalyze (processQueue ?s1)"
    proof (rule "1.IH" [OF True])
      show "length (running ?s1) \<le> concurrency"
        using True by simp
      show "invoked ?s1 @ queue ?s1 = reposToAnalyze"
        using True "1.prems"(2) by simp
      show "mset (map candidate (running ?s1)) + mset (map fst (settled ?s1)) = mset (invoked ?s1)"
        using "1.prems"(3) by simp
    qed
    then show ?thesis
      using True by (subst processQueue_unfold) simp
  next
    case False
    have same: "processQueue s = s"
      by (subst processQueue_unfold) (simp only: False if_False)
    from False "1.prems"(1) have "queue s = [] \<or> length (running s) = concurrency"
      by auto
    with "1.prems" show ?thesis
      by (simp add: same supervision_inv_def)
  qed
qed

lemma supervision_start_inv: "supervision_inv reposToAnalyze (supervision_start reposToAnalyze)"
  unfolding supervision_start_def by (rule processQueue_inv) simp_all

lemma splice1_indexOf: "p \<in> set xs \<Longrightarrow> 0 \<le> indexOf xs p \<and> splice1 (nat (indexOf xs p)) xs = remove1 p xs"
proof (induction xs)
  case Nil
  then show ?case by simp
next
  case (Cons y ys)
  show ?case
  proof (cases "y = p")
    case True
    then show ?thesis by (simp add: splice1_def)
  next
    case False
    with Cons have ih: "0 \<le> indexOf ys p" "splice1 (nat (indexOf ys p)) ys = remove1 p ys"
      by auto
    from ih(1) have "nat (indexOf ys p + 1) = Suc (nat (indexOf ys p))"
      by simp
    with False ih show ?thesis
      by (simp add: splice1_def Let_def)
  qed
qed

lemma on_fulfilled_running:
  "p \<in> set (running s) \<Longrightarrow>
   on_fulfilled p how s =
     processQueue (s\<lparr>running := remove1 p (running s), settled := settled s @ [(candidate p, how)]\<rparr>)"
  using splice1_indexOf [of p "running s"] by (simp add: on_fulfilled_def Let_def)

lemma find_SomeD: "find P xs = Some x \<Longrightarrow> x \<in> set xs \<and> P x"
  by (induction xs) (auto split: if_splits)

lemma settle_Some:
  assumes "settle n how s = Some s1"
  shows "\<exists>p. p \<in> set (running s) \<and> pid p = n \<and>
       s1 = processQueue (s\<lparr>running := remove1 p (running s), settled := settled s @ [(candidate p, how)]\<rparr>)"
proof -
  from assms obtain p where f: "find (\<lambda>q. pid q = n) (running s) = Some p" and s1: "s1 = on_fulfilled p how s"
    by (auto simp: settle_def split: option.splits)
  from f have p: "p \<in> set (running s)" "pid p = n"
    by (auto dest: find_SomeD)
  with s1 show ?thesis
    using on_fulfilled_running by blast
qed

lemma settle_running:
  "p \<in> set (running s) \<Longrightarrow> \<exists>s1. settle (pid p) how s = Some s1"
  by (cases "find (\<lambda>q. pid q = pid p) (running s)") (auto simp: settle_def find_None_iff)

lemma settle_inv:
  assumes "supervision_inv reposToAnalyze s" and "settle n how s = Some s1"
  shows "supervision_inv reposToAnalyze s1 \<and> settled s1 = settled s @ [(fst (last (settled s1)), how)]"
proof -
  from assms(2) obtain p where p: "p \<in> set (running s)"
    and s1: "s1 = processQueue (s\<lparr>running := remove1 p (running s), settled := settled s @ [(candidate p, how)]\<rparr>)"
    using settle_Some by blast
  let ?s0 = "s\<lparr>running := remove1 p (running s), settled := settled s @ [(candidate p, how)]\<rparr>"
  have len: "length (running ?s0) \<le> concurrency"
    using assms(1) p by (auto simp: supervision_inv_def length_remove1)
  have ord: "invoked ?s0 @ queue ?s0 = reposToAnalyze"
    using assms(1) by (simp add: supervision_inv_def)
  have "mset (map candidate (running s)) = add_mset (candidate p) (mset (map candidate (remove1 p (running s))))"
    using p by (metis image_mset_add_mset insert_DiffM mset_map mset_remove1 set_mset_mset)
  then have acc: "mset (map candidate (running ?s0)) + mset (map fst (settled ?s0)) = mset (invoked ?s0)"
    using assms(1) by (simp add: supervision_inv_def)
  have "supervision_inv reposToAnalyze s1"
    unfolding s1 using len ord acc by (rule processQueue_inv)
  moreover have "settled s1 = settled s @ [(candidate p, how)]"
    by (simp add: s1)
  ultimately show ?thesis by simp
qed

lemma supervise_snoc:
  "supervise (events @ [(n, how)]) s =
     (case supervise events s of None \<Rightarrow> None | Some s1 \<Rightarrow> settle n how s1)"
  by (induction events arbitrary: s) (auto split: option.splits)

lemma supervise_inv:
  "supervise events s0 = Some s \<Longrightarrow> supervision_inv reposToAnalyze s0 \<Longrightarrow>
   supervision_inv reposToAnalyze s \<and>
   map snd (settled s) = map snd (settled s0) @ map snd events"
proof (induction events arbitrary: s0)
  case Nil
  then show ?case by simp
next
  case (Cons e events)
  obtain n how where e: "e = (n, how)"
    by (cases e) auto
  from Cons.prems(1) obtain s1 where s1: "settle n how s0 = Some s1" "supervise events s1 = Some s"
    by (auto simp: e split: option.splits)
  from settle_inv [OF Cons.prems(2) s1(1)]
  have i1: "supervision_inv reposToAnalyze s1" and st: "map snd (settled s1) = map snd (settled s0) @ [how]"
    by (auto dest: arg_cong [where f = "map snd"])
  from Cons.IH [OF s1(2) i1] st show ?case
    by (simp add: e)
qed

text \<open>
  Claim C1. In every state the scheduler reaches from a list of candidates, whatever the order
  in which the analysts' calls return and however each of them ended: at most 5 promises are
  running; the analysts were called in submission order, and none waits in the queue while a
  slot is free; every candidate whose analyst was called is running or has returned; how a
  call ended is recorded and changes nothing else; the loop that precedes Synthesis ends
  exactly when as many calls have returned as there are candidates, and then every candidate's
  call has returned; and until then every running call can return, after a success or after
  a caught failure, and Supervision goes on.
\<close>

theorem supervision_bounded:
  assumes "supervise events (supervision_start reposToAnalyze) = Some s"
  shows "length (running s) \<le> 5
         \<and> invoked s @ queue s = reposToAnalyze
         \<and> (queue s = [] \<or> length (running s) = 5)
         \<and> mset (map candidate (running s)) + mset (map fst (settled s)) = mset (invoked s)
         \<and> map snd (settled s) = map snd events
         \<and> length events \<le> length reposToAnalyze
         \<and> drained s = (length events = length reposToAnalyze)
         \<and> (drained s \<longrightarrow> queue s = [] \<and> mset (map fst (settled s)) = mset reposToAnalyze)
         \<and> (\<forall>p how. p \<in> set (running s) \<longrightarrow>
               (\<exists>s1. supervise (events @ [(pid p, how)]) (supervision_start reposToAnalyze) = Some s1))"
proof -
  have start0: "settled (supervision_start reposToAnalyze) = []"
    by (simp add: supervision_start_def)
  from supervise_inv [OF assms supervision_start_inv]
  have inv: "supervision_inv reposToAnalyze s" and out: "map snd (settled s) = map snd events"
    by (simp_all add: start0)
  from inv have bound: "length (running s) \<le> 5"
    and order: "invoked s @ queue s = reposToAnalyze"
    and acc: "mset (map candidate (running s)) + mset (map fst (settled s)) = mset (invoked s)"
    and full: "queue s = [] \<or> length (running s) = 5"
    by (simp_all add: supervision_inv_def concurrency_def)
  from out have n: "length (settled s) = length events"
    by (metis length_map)
  from acc have sizes: "length (running s) + length (settled s) = length (invoked s)"
    by (metis length_map size_mset size_union)
  from order have total: "length (invoked s) + length (queue s) = length reposToAnalyze"
    by (metis length_append)
  have le: "length events \<le> length reposToAnalyze"
    using n sizes total by linarith
  have dr: "drained s = (length events = length reposToAnalyze)"
  proof
    assume "drained s"
    then have r: "running s = []"
      by (simp add: drained_def)
    with full have "queue s = []"
      by auto
    with r n sizes total show "length events = length reposToAnalyze"
      by simp
  next
    assume "length events = length reposToAnalyze"
    with n sizes total have "length (running s) = 0"
      by linarith
    then show "drained s"
      by (simp add: drained_def)
  qed
  have fin: "queue s = [] \<and> mset (map fst (settled s)) = mset reposToAnalyze" if "drained s"
  proof -
    from that have r: "running s = []"
      by (simp add: drained_def)
    with full have q: "queue s = []"
      by auto
    with order acc r show ?thesis
      by simp
  qed
  have go: "\<exists>s1. supervise (events @ [(pid p, how)]) (supervision_start reposToAnalyze) = Some s1"
    if "p \<in> set (running s)" for p how
    using settle_running [OF that, of how] assms by (simp add: supervise_snoc)
  from bound order full acc out le dr fin go show ?thesis
    by blast
qed

text \<open>
  Twenty-three candidates: after three returns, one of them after a failure, five promises run
  and fifteen candidates wait; after twenty-three returns the loop has ended.
\<close>

theorem supervision_bounded_witness:
  "map_option (\<lambda>s. (map pid (running s), length (queue s), length (settled s)))
     (supervise [(3, Succeeded), (0, CaughtFailure ''Not Found''), (6, Succeeded)]
        (supervision_start sample_repos)) = Some ([1, 2, 4, 5, 7], 15, 3)
   \<and> map_option (\<lambda>s. (length (running s), length (queue s), length (settled s), drained s))
       (supervise sample_events (supervision_start sample_repos)) = Some (0, 0, 23, True)"
proof -
  have a: "map_option (\<lambda>s. (map pid (running s), length (queue s), length (settled s)))
     (supervise [(3, Succeeded), (0, CaughtFailure ''Not Found''), (6, Succeeded)]
        (supervision_start sample_repos)) = Some ([1, 2, 4, 5, 7], 15, 3)"
    by code_simp
  have b: "map_option (\<lambda>s. (length (running s), length (queue s), length (settled s)))
       (supervise sample_events (supervision_start sample_repos)) = Some (0, 0, 23)"
    by code_simp
  have n: "length sample_events = length sample_repos"
    by (simp add: sample_events_def sample_repos_def)
  from b obtain s where s: "supervise sample_events (supervision_start sample_repos) = Some s"
    and c: "length (running s) = 0" "length (queue s) = 0" "length (settled s) = 23"
    by auto
  from supervision_bounded [OF s] n have "drained s"
    by blast
  with a s c show ?thesis
    by simp
qed

section \<open>Properties of the correction monitor\<close>

text \<open>
  Claim C10. On a tick of the monitor a result of the request whose score is missing counts
  as score 0: when some result of the request has no score or a score below 10, the
  correction message goes to every analyst socket, and putting 0 for each missing score
  changes nothing of what the tick sends.
\<close>

theorem monitor_tick_corrects:
  assumes "r \<in> set (repoAnalysis db)" and "ra_requestId r = requestId"
    and "ra_aiRanking r = None \<or> (\<exists>n. ra_aiRanking r = Some n \<and> n < 10)"
  shows "monitor_tick db requestId analystSockets =
           map (\<lambda>ws. (ws, ''correction'', correction_text)) analystSockets
         \<and> monitor_tick
             (db\<lparr>repoAnalysis :=
                   map (\<lambda>x. if ra_aiRanking x = None then x\<lparr>ra_aiRanking := Some 0\<rparr> else x)
                       (repoAnalysis db)\<rparr>) requestId analystSockets =
           monitor_tick db requestId analystSockets"
proof -
  have low: "(case ra_aiRanking r of None \<Rightarrow> 0 | Some n \<Rightarrow> n) < 10"
    using assms(3) by auto
  have "r \<in> set (filter (\<lambda>x. ra_requestId x = requestId) (repoAnalysis db))"
    using assms(1,2) by simp
  with low have "list_ex (\<lambda>x. (case ra_aiRanking x of None \<Rightarrow> 0 | Some n \<Rightarrow> n) < 10)
                   (filter (\<lambda>x. ra_requestId x = requestId) (repoAnalysis db))"
    unfolding list_ex_iff by blast
  then have first: "monitor_tick db requestId analystSockets =
      map (\<lambda>ws. (ws, ''correction'', correction_text)) analystSockets"
    by (simp add: monitor_tick_def)
  have same: "list_ex (\<lambda>x. (case ra_aiRanking x of None \<Rightarrow> 0 | Some n \<Rightarrow> n) < 10)
        (filter (\<lambda>x. ra_requestId x = requestId)
           (map (\<lambda>x. if ra_aiRanking x = None then x\<lparr>ra_aiRanking := Some 0\<rparr> else x) rows)) =
      list_ex (\<lambda>x. (case ra_aiRanking x of None \<Rightarrow> 0 | Some n \<Rightarrow> n) < 10)
        (filter (\<lambda>x. ra_requestId x = requestId) rows)" for rows :: "repo_analysis list"
    by (induction rows) auto
  have second: "monitor_tick
             (db\<lparr>repoAnalysis :=
                   map (\<lambda>x. if ra_aiRanking x = None then x\<lparr>ra_aiRanking := Some 0\<rparr> else x)
                       (repoAnalysis db)\<rparr>) requestId analystSockets =
           monitor_tick db requestId analystSockets"
    by (simp add: monitor_tick_def same)
  from first second show ?thesis by simp
qed

text \<open>The sample request has a result without a score: both sockets get the correction.\<close>

theorem monitor_tick_corrects_witness:
  "monitor_tick sample_store ''req-1'' [1::nat, 2] =
     [(1, ''correction'', correction_text), (2, ''correction'', correction_text)]"
proof -
  let ?r = "sample_result ''b'' ''https://github.com/o/b'' None"
  have a: "?r \<in> set (repoAnalysis sample_store)"
    by (simp add: sample_store_def)
  have b: "ra_requestId ?r = ''req-1''"
    by (simp add: sample_result_def)
  have c: "ra_aiRanking ?r = None \<or> (\<exists>n. ra_aiRanking ?r = Some n \<and> n < 10)"
    by (simp add: sample_result_def)
  show ?thesis
    using monitor_tick_corrects [OF a b c, of "[1::nat, 2]"] by simp
qed

section \<open>Properties of GithubAnalystAgent.run\<close>

lemma repoAnalysis_run_enter [simp]: "repoAnalysis (run_enter requestId repoUrl db) = repoAnalysis db"
  by (simp add: run_enter_def logRequest_def)

lemma githubRequests_run_enter [simp]: "githubRequests (run_enter requestId repoUrl db) = githubRequests db"
  by (simp add: run_enter_def logRequest_def)

lemma hitlReviews_run_enter [simp]: "hitlReviews (run_enter requestId repoUrl db) = hitlReviews db"
  by (simp add: run_enter_def logRequest_def)




lemma run_try_raises:
  assumes "findFirst_rejects env = None"
    and "find (own_result requestId repoUrl) (repoAnalysis db) = None"
    and "url_pathname env repoUrl = Some pathname"
    and "filter (\<lambda>w. w \<noteq> []) (split CHR ''/'' pathname) = owner # name # others"
  shows "github_get_repo env owner name = Inl e \<Longrightarrow>
           fst (run_try env st requestId repoUrl userQuery db) = Inl e"
    and "github_get_repo env owner name = Inr stars \<Longrightarrow>
         github_read_file env owner name ''README.md'' = Inl e \<Longrightarrow>
           fst (run_try env st requestId repoUrl userQuery db) = Inl e"
    and "github_get_repo env owner name = Inr stars \<Longrightarrow>
         github_read_file env owner name ''README.md'' = Inr readmeContent \<Longrightarrow>
         analysis_answer env
           (analysisPrompt userQuery repoUrl readmeContent
              (case github_read_file env owner name ''package.json'' of Inl _ \<Rightarrow> None | Inr c \<Rightarrow> Some c)
              (correction st)) = Inl e \<Longrightarrow>
           fst (run_try env st requestId repoUrl userQuery db) = Inl e"
    and "github_get_repo env owner name = Inr stars \<Longrightarrow>
         github_read_file env owner name ''README.md'' = Inr readmeContent \<Longrightarrow>
         analysis_answer env
           (analysisPrompt userQuery repoUrl readmeContent
              (case github_read_file env owner name ''package.json'' of Inl _ \<Rightarrow> None | Inr c \<Rightarrow> Some c)
              (correction st)) = Inr j \<Longrightarrow>
         analysis_schema j = None \<Longrightarrow>
           fst (run_try env st requestId repoUrl userQuery db) = Inl (Error ''schema validation failed'')"
    and "github_get_repo env owner name = Inr stars \<Longrightarrow>
         github_read_file env owner name ''README.md'' = Inr readmeContent \<Longrightarrow>
         analysis_answer env
           (analysisPrompt userQuery repoUrl readmeContent
              (case github_read_file env owner name ''package.json'' of Inl _ \<Rightarrow> None | Inr c \<Rightarrow> Some c)
              (correction st)) = Inr j \<Longrightarrow>
         analysis_schema j = Some a \<Longrightarrow> insert_rejects env = Some e \<Longrightarrow>
           fst (run_try env st requestId repoUrl userQuery db) = Inl e"
  using assms by (simp_all add: run_try_def generateStructured_def)


lemma no_own_result:
  "find (own_result requestId repoUrl) rows = None \<longleftrightarrow> filter (own_result requestId repoUrl) rows = []"
  by (auto simp: find_None_iff filter_empty_conv)



lemma githubRequests_run_try:
  "githubRequests (snd (run_try env st requestId repoUrl userQuery db)) = githubRequests db"
  by (auto simp: run_try_def Let_def logRequest_def split: option.splits sum.splits if_splits)

text \<open>
  Claim C8 asks for a score in the range 1 to 100 on every result persisted as complete. The
  schema validates \<^verbatim>\<open>ai_ranking\<close> with \<^verbatim>\<open>z.number()\<close> alone, and the
  range stands in the prompt only: when the model answers 150, the run persists a complete
  result with score 150.
\<close>

theorem unbounded_ranking_persisted:
  "run (sample_env 150) \<lparr>correction = None\<rparr> ''req-1'' ''https://github.com/o/d'' ''auth libraries''
       sample_store =
   (Inr (),
    sample_store
      \<lparr>repoAnalysis := repoAnalysis sample_store @
         [\<lparr>ra_id = ''uuid-1'', ra_requestId = ''req-1'', ra_repoUrl = ''https://github.com/o/d'',
           ra_agentId = Some ''GithubAnalystAgent'', ra_status = ''complete'',
           ra_aiRanking = Some 150, ra_aiSummary = Some ''an auth library'',
           ra_aiProsCons = Some ([''small''], []), ra_stars = Some 120,
           ra_techStack = Some [''typescript'']\<rparr>],
       requestLog := [(''req-1'', ''info'', ''Analyzing repository: https://github.com/o/d''),
                      (''req-1'', ''info'', ''Analysis complete.'')]\<rparr>)"
  by (simp add: run_def run_try_def run_enter_def logRequest_def sample_env_def sample_store_def
      sample_result_def own_result_def generateStructured_def analysis_schema_def sample_answer_def
      field_def z_number_def z_string_def z_array_def)

text \<open>
  Claim C9. A missing \<^verbatim>\<open>package.json\<close> is no error: when the pair has no result
  yet and the lookup, the URL, the repository details, the README, the generation (asked
  with the manifest noted as not found) and the insert succeed, the run returns normally
  and adds a result with status complete for the candidate, whatever the read of
  \<^verbatim>\<open>package.json\<close> failed with.
\<close>

theorem missing_manifest_tolerated:
  assumes "findFirst_rejects env = None"
    and "find (own_result requestId repoUrl) (repoAnalysis db) = None"
    and "url_pathname env repoUrl = Some pathname"
    and "filter (\<lambda>w. w \<noteq> []) (split CHR ''/'' pathname) = owner # name # others"
    and "github_get_repo env owner name = Inr stars"
    and "github_read_file env owner name ''README.md'' = Inr readmeContent"
    and "github_read_file env owner name ''package.json'' = Inl notFound"
    and "analysis_answer env (analysisPrompt userQuery repoUrl readmeContent None (correction st)) = Inr j"
    and "analysis_schema j = Some a"
    and "insert_rejects env = None"
  shows "fst (run env st requestId repoUrl userQuery db) = Inr ()
         \<and> repoAnalysis (snd (run env st requestId repoUrl userQuery db)) =
             repoAnalysis db @
               [\<lparr>ra_id = randomUUID env, ra_requestId = requestId, ra_repoUrl = repoUrl,
                 ra_agentId = Some ''GithubAnalystAgent'', ra_status = ''complete'',
                 ra_aiRanking = Some (ai_ranking a), ra_aiSummary = Some (ai_summary a),
                 ra_aiProsCons = Some (ai_pros_cons a), ra_stars = Some stars,
                 ra_techStack = Some (tech_stack a)\<rparr>]"
  using assms
  by (simp add: run_def run_try_def generateStructured_def logRequest_def)

text \<open>The sample candidate has a README and no manifest: its result is complete.\<close>

theorem missing_manifest_tolerated_witness:
  "fst (run (sample_env 50) \<lparr>correction = None\<rparr> ''req-1'' ''https://github.com/o/d'' ''auth libraries''
         sample_store) = Inr ()
   \<and> map ra_status
        (filter (own_result ''req-1'' ''https://github.com/o/d'')
           (repoAnalysis (snd (run (sample_env 50) \<lparr>correction = None\<rparr> ''req-1''
              ''https://github.com/o/d'' ''auth libraries'' sample_store)))) = [''complete'']"
proof -
  have 1: "findFirst_rejects (sample_env 50) = None"
    by (simp add: sample_env_def)
  have 2: "find (own_result ''req-1'' ''https://github.com/o/d'') (repoAnalysis sample_store) = None"
    by (simp add: sample_store_def sample_result_def own_result_def)
  have 3: "url_pathname (sample_env 50) ''https://github.com/o/d'' = Some ''/o/d''"
    by (simp add: sample_env_def)
  have 4: "filter (\<lambda>w. w \<noteq> []) (split CHR ''/'' ''/o/d'') = ''o'' # ''d'' # []"
    by simp
  have 5: "github_get_repo (sample_env 50) ''o'' ''d'' = Inr 120"
    by (simp add: sample_env_def)
  have 6: "github_read_file (sample_env 50) ''o'' ''d'' ''README.md'' = Inr ''# d''"
    by (simp add: sample_env_def)
  have 7: "github_read_file (sample_env 50) ''o'' ''d'' ''package.json'' = Inl (Error ''Not Found'')"
    by (simp add: sample_env_def)
  have 8: "analysis_answer (sample_env 50)
             (analysisPrompt ''auth libraries'' ''https://github.com/o/d'' ''# d'' None
                (correction \<lparr>correction = None\<rparr>)) = Inr (sample_answer 50)"
    by (simp add: sample_env_def)
  have 9: "analysis_schema (sample_answer 50) =
             Some \<lparr>ai_ranking = 50, ai_summary = ''an auth library'',
                   ai_pros_cons = ([''small''], []), tech_stack = [''typescript'']\<rparr>"
    by (simp add: analysis_schema_def sample_answer_def field_def z_number_def z_string_def
        z_array_def)
  have 10: "insert_rejects (sample_env 50) = None"
    by (simp add: sample_env_def)
  show ?thesis
    using missing_manifest_tolerated [OF 1 2 3 4 5 6 7 8 9 10]
    by (simp add: sample_store_def sample_result_def own_result_def)
qed







text \<open>
  Claim C4. No call of \<^verbatim>\<open>GithubAnalystAgent.run\<close> and no call of
  \<^verbatim>\<open>JudgeAgent.review\<close> changes a row of the requests table, so the lifecycle
  status of every request is as the orchestrator left it. The two functions write to the
  analysis table and the log only; their calls of \<^verbatim>\<open>status\<close> are those of
  \<open>status\<close> above, which writes a request's status for the orchestrator alone.
\<close>

theorem request_status_untouched:
  "githubRequests (snd (run env st requestId repoUrl userQuery db)) = githubRequests db
   \<and> githubRequests (snd (review answer requestId userQuery results db)) = githubRequests db"
proof -
  let ?t = "run_try env st requestId repoUrl userQuery (run_enter requestId repoUrl db)"
  have t: "githubRequests (snd ?t) = githubRequests db"
    by (simp add: githubRequests_run_try)
  have "githubRequests (snd (run env st requestId repoUrl userQuery db)) = githubRequests db"
  proof (cases ?t)
    case (Pair res db1)
    with t show ?thesis
      by (cases res) (simp_all add: run_def logRequest_def)
  qed
  moreover have "githubRequests (snd (review answer requestId userQuery results db)) = githubRequests db"
    by (simp add: review_def Let_def logRequest_def split: sum.splits prod.splits)
  ultimately show ?thesis by simp
qed

section \<open>Properties of the review route and of start\<close>

lemma mark_reviewed_simps [simp]:
  "hr_id (mark_reviewed i v t r) = hr_id r"
  "hr_requestId (mark_reviewed i v t r) = hr_requestId r"
  "hr_id r \<noteq> i \<Longrightarrow> mark_reviewed i v t r = r"
  by (simp_all add: mark_reviewed_def)

lemma hitlReviews_reviewHitl:
  "hitlReviews (fst (reviewHitl i v t db)) = map (mark_reviewed i v t) (hitlReviews db)"
  by (simp add: reviewHitl_def reviewHitl_update_def Let_def)

lemma all_filtered:
  "length (filter P xs) = length xs \<Longrightarrow> x \<in> set xs \<Longrightarrow> P x"
proof (induction xs)
  case Nil
  then show ?case by simp
next
  case (Cons y ys)
  have le: "length (filter P ys) \<le> length ys"
    by (rule length_filter_le)
  show ?case
  proof (cases "P y")
    case True
    with Cons show ?thesis by auto
  next
    case False
    with Cons.prems(1) le show ?thesis by simp
  qed
qed

lemma reviewHitl_called:
  assumes "snd (reviewHitl i v t db) = Some requestId"
  shows "(\<exists>r. r \<in> set (hitlReviews db) \<and> hr_id r = i \<and> hr_requestId r = requestId)"
    and "\<And>r. r \<in> set (hitlReviews (fst (reviewHitl i v t db))) \<Longrightarrow> hr_requestId r = requestId \<Longrightarrow>
           hr_status r = ''reviewed''"
proof -
  let ?rows = "map (mark_reviewed i v t) (hitlReviews db)"
  obtain rv where rv: "find (\<lambda>r. hr_id r = i) ?rows = Some rv"
    using assms
    by (cases "find (\<lambda>r. hr_id r = i) ?rows")
       (auto simp: reviewHitl_def reviewHitl_update_def reviewHitl_check_def Let_def)
  have rq: "hr_requestId rv = requestId"
    and full: "length (filter (\<lambda>r. hr_status r = ''reviewed'') (filter (\<lambda>r. hr_requestId r = hr_requestId rv) ?rows)) =
               length (filter (\<lambda>r. hr_requestId r = hr_requestId rv) ?rows)"
    using assms rv
    by (auto simp: reviewHitl_def reviewHitl_update_def reviewHitl_check_def Let_def split: if_splits)
  from rv have "rv \<in> set ?rows" "hr_id rv = i"
    by (auto simp: find_Some_iff)
  then obtain r0 where "r0 \<in> set (hitlReviews db)" "rv = mark_reviewed i v t r0"
    by auto
  with \<open>hr_id rv = i\<close> rq show "\<exists>r. r \<in> set (hitlReviews db) \<and> hr_id r = i \<and> hr_requestId r = requestId"
    by (intro exI [of _ r0]) simp
  fix r
  assume "r \<in> set (hitlReviews (fst (reviewHitl i v t db)))" and "hr_requestId r = requestId"
  then have "r \<in> set (filter (\<lambda>r. hr_requestId r = hr_requestId rv) ?rows)"
    using rq by (simp add: hitlReviews_reviewHitl)
  with full show "hr_status r = ''reviewed''"
    using all_filtered by fastforce
qed

lemma calls_Cons:
  "snd (reviewHitl_all ((i, v, t) # posts) db) =
     (case snd (reviewHitl i v t db) of None \<Rightarrow> [] | Some r \<Rightarrow> [r]) @
     snd (reviewHitl_all posts (fst (reviewHitl i v t db)))"
  by (simp split: prod.splits)

lemma not_called_later:
  "(\<And>r. r \<in> set (hitlReviews db) \<Longrightarrow> hr_id r \<in> fst ` set posts \<Longrightarrow> hr_requestId r \<noteq> requestId) \<Longrightarrow>
   requestId \<notin> set (snd (reviewHitl_all posts db))"
proof (induction posts arbitrary: db)
  case Nil
  then show ?case by simp
next
  case (Cons post posts)
  obtain i v t where post: "post = (i, v, t)"
    by (cases post) auto
  let ?db1 = "fst (reviewHitl i v t db)"
  have rest: "requestId \<notin> set (snd (reviewHitl_all posts ?db1))"
  proof (rule Cons.IH)
    fix r
    assume "r \<in> set (hitlReviews ?db1)" and "hr_id r \<in> fst ` set posts"
    then obtain r0 where "r0 \<in> set (hitlReviews db)" "r = mark_reviewed i v t r0"
      by (auto simp: hitlReviews_reviewHitl)
    with \<open>hr_id r \<in> fst ` set posts\<close> Cons.prems [of r0] show "hr_requestId r \<noteq> requestId"
      by simp
  qed
  have first: "snd (reviewHitl i v t db) \<noteq> Some requestId"
  proof
    assume "snd (reviewHitl i v t db) = Some requestId"
    then obtain r where "r \<in> set (hitlReviews db)" "hr_id r = i" "hr_requestId r = requestId"
      using reviewHitl_called(1) by blast
    with Cons.prems [of r] post show False by simp
  qed
  from rest first show ?case
    unfolding post calls_Cons by (auto split: option.splits)
qed

text \<open>
  Claim C5 asks that \<^verbatim>\<open>continue\<close> runs at most once for a request. The route checks
  only that every item of the request is reviewed, and \<^verbatim>\<open>continue\<close> checks only
  that the request exists: a verdict posted twice for the single, reviewed item of a completed
  request calls \<^verbatim>\<open>continue\<close> twice, and the call takes the request from
  \<^verbatim>\<open>completed\<close> back through Expansion and Delegation to Supervision. And when
  the updates of two requests for the two pending items of a request both come before their
  checks, both checks call \<^verbatim>\<open>continue\<close>.
\<close>

theorem continue_called_twice:
  "snd (reviewHitl_all [(''rev-1'', True, None), (''rev-1'', False, None)] reviewed_store) =
     [''req-1'', ''req-1'']
   \<and> map gr_status (githubRequests reviewed_store) = [''completed'']
   \<and> map gr_status (githubRequests (snd (continue_delegation empty_search_env ''req-1'' reviewed_store))) =
     [''supervision'']
   \<and> map (\<lambda>reviewId.
            reviewHitl_check reviewId
              (reviewHitl_update ''rev-2'' False None (reviewHitl_update ''rev-1'' True None pending_store)))
         [''rev-1'', ''rev-2''] =
     [Some ''req-1'', Some ''req-1'']"
  by (simp add: reviewHitl_def reviewHitl_update_def reviewHitl_check_def mark_reviewed_def
      reviewed_store_def pending_store_def new_hitl_review_def sample_request_def
      continue_delegation_def empty_search_env_def generateStructured_def z_array_def z_string_def
      slice0_def)

text \<open>
  Claim C5, amended. When the review requests are handled one after the other and each
  names another item, none of them reviewed before, \<^verbatim>\<open>continue\<close> is called at
  most once for every request.
\<close>

theorem continue_called_once:
  assumes "distinct (map fst posts)"
    and "\<forall>r \<in> set (hitlReviews db). hr_id r \<in> fst ` set posts \<longrightarrow> hr_status r \<noteq> ''reviewed''"
  shows "count_list (snd (reviewHitl_all posts db)) requestId \<le> 1"
  using assms
proof (induction posts arbitrary: db)
  case Nil
  then show ?case by simp
next
  case (Cons post posts)
  obtain i v t where post: "post = (i, v, t)"
    by (cases post) auto
  let ?db1 = "fst (reviewHitl i v t db)"
  have fresh: "i \<notin> fst ` set posts" and dist: "distinct (map fst posts)"
    using Cons.prems(1) post by auto
  have pending: "hr_status r \<noteq> ''reviewed''"
    if "r \<in> set (hitlReviews ?db1)" and "hr_id r \<in> fst ` set posts" for r
  proof -
    from that(1) obtain r0 where r0: "r0 \<in> set (hitlReviews db)" "r = mark_reviewed i v t r0"
      by (auto simp: hitlReviews_reviewHitl)
    from that(2) r0(2) have "hr_id r0 \<in> fst ` set posts"
      by simp
    with fresh have "hr_id r0 \<noteq> i"
      by blast
    with r0(2) have "r = r0"
      by simp
    with r0 that(2) Cons.prems(2) show ?thesis
      by auto
  qed
  then have ih: "count_list (snd (reviewHitl_all posts ?db1)) requestId \<le> 1"
    using Cons.IH [OF dist, of ?db1] by blast
  show ?case
  proof (cases "snd (reviewHitl i v t db) = Some requestId")
    case True
    have "requestId \<notin> set (snd (reviewHitl_all posts ?db1))"
    proof (rule not_called_later)
      fix r
      assume r: "r \<in> set (hitlReviews ?db1)" "hr_id r \<in> fst ` set posts"
      then have "hr_status r \<noteq> ''reviewed''"
        by (rule pending)
      with reviewHitl_called(2) [OF True r(1)] show "hr_requestId r \<noteq> requestId"
        by blast
    qed
    then have "count_list (snd (reviewHitl_all posts ?db1)) requestId = 0"
      by (simp add: count_list_0_iff)
    with True show ?thesis
      unfolding post calls_Cons by simp
  next
    case False
    with ih show ?thesis
      unfolding post calls_Cons by (auto split: option.splits)
  qed
qed

text \<open>Two pending items, one verdict each: the second verdict calls \<^verbatim>\<open>continue\<close>, once.\<close>

theorem continue_called_once_witness:
  "snd (reviewHitl_all [(''rev-1'', True, None), (''rev-2'', False, None)] pending_store) = [''req-1'']
   \<and> count_list (snd (reviewHitl_all [(''rev-1'', True, None), (''rev-2'', False, None)] pending_store))
        ''req-1'' \<le> 1"
proof -
  have d: "distinct (map fst [(''rev-1'', True, None :: string option), (''rev-2'', False, None)])"
    by simp
  have p: "\<forall>r \<in> set (hitlReviews pending_store).
             hr_id r \<in> fst ` set [(''rev-1'', True, None :: string option), (''rev-2'', False, None)] \<longrightarrow>
             hr_status r \<noteq> ''reviewed''"
    by (simp add: pending_store_def new_hitl_review_def)
  have c: "snd (reviewHitl_all [(''rev-1'', True, None), (''rev-2'', False, None)] pending_store) = [''req-1'']"
    by (simp add: reviewHitl_def reviewHitl_update_def reviewHitl_check_def mark_reviewed_def
        pending_store_def new_hitl_review_def)
  show ?thesis
    using continue_called_once [OF d p, of "''req-1''"] c by simp
qed

text \<open>
  Claim C7 asks that a request whose Sampling finds no candidate can go on past the review
  gate. With no candidate, \<^verbatim>\<open>start\<close> leaves the request in status
  \<^verbatim>\<open>hitl\<close> without a review item and ends in the rejection of the empty insert;
  and since the route calls \<^verbatim>\<open>continue\<close> only for the request of a review row it
  has found, no review request, whatever its id and verdict, calls it.
\<close>

theorem no_candidates_no_continue:
  "start empty_search_env ''req-1'' ''auth libraries'' (JObj []) sample_store =
     (Inl (Error ''values() must be called with at least one value''),
      sample_store
        \<lparr>githubRequests := [sample_request\<lparr>gr_status := ''hitl''\<rparr>],
         requestLog := [(''req-1'', ''info'', ''Starting new search.'')]\<rparr>)
   \<and> hitlReviews (snd (start empty_search_env ''req-1'' ''auth libraries'' (JObj []) sample_store)) = []
   \<and> (\<forall>reviewId userVerdict rationale.
         snd (reviewHitl reviewId userVerdict rationale
                (snd (start empty_search_env ''req-1'' ''auth libraries'' (JObj []) sample_store))) = None)"
proof -
  have s: "start empty_search_env ''req-1'' ''auth libraries'' (JObj []) sample_store =
     (Inl (Error ''values() must be called with at least one value''),
      sample_store
        \<lparr>githubRequests := [sample_request\<lparr>gr_status := ''hitl''\<rparr>],
         requestLog := [(''req-1'', ''info'', ''Starting new search.'')]\<rparr>)"
    by (simp add: start_def empty_search_env_def generateStructured_def z_array_def z_string_def
        slice0_def logRequest_def sample_store_def sample_request_def)
  have h: "hitlReviews (snd (start empty_search_env ''req-1'' ''auth libraries'' (JObj []) sample_store)) = []"
    unfolding s by (simp add: sample_store_def)
  have "snd (reviewHitl reviewId userVerdict rationale db) = None" if "hitlReviews db = []"
    for reviewId userVerdict rationale and db :: store
    using that by (simp add: reviewHitl_def reviewHitl_update_def reviewHitl_check_def)
  with s h show ?thesis by blast
qed


end
